theory Spec2Isabelle
  imports Complex_Main "HOL-Library.Word"
begin

section \<open>Common data\<close>

text \<open>
  A Python \<^verbatim>\<open>bytes\<close> object is a sequence of unsigned 8-bit values; iterating over it
  yields the integers 0 to 255.  A grayscale image is an array of unsigned 8-bit pixels.
\<close>

type_synonym byte = "8 word"

text \<open>The exceptions that the modelled code lets escape.\<close>

datatype error =
    ZeroDivisionError   \<comment> \<open>Python's own: division by zero\<close>
  | AttributeError      \<comment> \<open>a method called on \<^verbatim>\<open>None\<close>\<close>
  | StreamError         \<comment> \<open>raised by the audio stream\<close>
  | CvError             \<comment> \<open>raised by the computer-vision library\<close>

section \<open>AudioRecorder\<close>

subsection \<open>\<^verbatim>\<open>_calculate_rms\<close>\<close>

text \<open>
  \<^verbatim>\<open>
  def _calculate_rms(self, data):
      squared_sum = sum([sample ** 2 for sample in data])
      rms = (squared_sum / len(data)) ** 0.5
      return rms
  \<close>
  \<^verbatim>\<open>data\<close> is the \<^verbatim>\<open>bytes\<close> object returned by the stream, so \<^verbatim>\<open>sample\<close> ranges over
  its bytes (the method is \<open>calculate_rms\<close> here: a name cannot begin with an underscore).
  The squares and their sum are unbounded Python integers.  The true division
  raises \<^verbatim>\<open>ZeroDivisionError\<close> when \<^verbatim>\<open>len(data)\<close> is 0.  Python's floats are
  idealised as real numbers, and \<^verbatim>\<open>** 0.5\<close> on a non-negative number is the square root.
\<close>

definition squared_sum :: "byte list \<Rightarrow> int" where
  "squared_sum data = sum_list (map (\<lambda>sample. (int (unat sample)) ^ 2) data)"

definition calculate_rms :: "byte list \<Rightarrow> error + real" where
  "calculate_rms data =
     (if length data = 0 then Inl ZeroDivisionError
      else Inr (sqrt (real_of_int (squared_sum data) / real (length data))))"

text \<open>
  \<open>calculate_rms\<close> is what \<^verbatim>\<open>_calculate_rms\<close> returns in exact arithmetic.  The worker
  compares the value that Python computes with a threshold, and there the rounding of the
  floats decides.  Which float a division, \<^verbatim>\<open>** 0.5\<close> or a subtraction returns is fixed by
  the platform's arithmetic and C library, not by the repository: these operations are
  parameters.  A float is taken as the real number it stands for (the floats that occur
  are finite), so the comparisons of floats, which do not round, are the comparisons of
  real numbers.
  \<^item> \<open>fl_div a n\<close>: the float of \<^verbatim>\<open>a / n\<close> for an integer \<open>a\<close> and a length \<open>n > 0\<close>
    (the quotient of a sum of squares of bytes by their number is at most 65025: the
    division cannot overflow);
  \<^item> \<open>fl_pow_half x\<close>: the float of \<^verbatim>\<open>x ** 0.5\<close>;
  \<^item> \<open>fl_sub x y\<close>: the float of \<^verbatim>\<open>x - y\<close>.

  \<open>exact_arith\<close> is the arithmetic that does not round.
\<close>

record float_arith =
  fl_div :: "int \<Rightarrow> nat \<Rightarrow> real"
  fl_pow_half :: "real \<Rightarrow> real"
  fl_sub :: "real \<Rightarrow> real \<Rightarrow> real"

definition exact_arith :: float_arith where
  "exact_arith =
     \<lparr> fl_div = (\<lambda>a n. real_of_int a / real n), fl_pow_half = sqrt,
       fl_sub = (\<lambda>x y. x - y) \<rparr>"

text \<open>\<^verbatim>\<open>_calculate_rms\<close> as the worker runs it, in the arithmetic \<open>fa\<close>.\<close>

definition calculate_rms_with :: "float_arith \<Rightarrow> byte list \<Rightarrow> error + real" where
  "calculate_rms_with fa data =
     (if length data = 0 then Inl ZeroDivisionError
      else Inr (fl_pow_half fa (fl_div fa (squared_sum data) (length data))))"

text \<open>
  A chunk is \<open>silent\<close> for a threshold when its energy in exact arithmetic is defined and
  below the threshold.
\<close>

definition silent :: "real \<Rightarrow> byte list \<Rightarrow> bool" where
  "silent thr data = (case calculate_rms data of Inl e \<Rightarrow> False | Inr rms \<Rightarrow> rms < thr)"

subsection \<open>The recording session\<close>

text \<open>
  Modelled from the spec: the audio stream object behind \<^verbatim>\<open>self.audio_stream\<close>, which
  belongs to a third-party library and is not part of the repository.  It is running once
  opened, stopped after \<^verbatim>\<open>stop_stream()\<close> and closed after \<^verbatim>\<open>close()\<close>.
\<close>

datatype stream = Running | Halted | Closed

text \<open>
  Modelled from the spec: \<^verbatim>\<open>stop_stream()\<close>.  The spec places the failure of a second
  \<^verbatim>\<open>stop_recording()\<close> at "the second stream-close attempt", which comes after the call of
  \<^verbatim>\<open>stop_stream()\<close>: stopping a stream that is no longer running raises nothing.
\<close>

definition stop_stream :: "stream \<Rightarrow> stream" where
  "stop_stream st = (case st of Running \<Rightarrow> Halted | Halted \<Rightarrow> Halted | Closed \<Rightarrow> Closed)"

text \<open>
  Modelled from the spec: \<^verbatim>\<open>close()\<close>.  "Calling it twice double-closes the stream", and
  this "produces an unhandled failure on the second stream-close attempt": closing a closed
  stream raises.
\<close>

definition close_stream :: "stream \<Rightarrow> error + stream" where
  "close_stream st = (case st of Closed \<Rightarrow> Inl StreamError | _ \<Rightarrow> Inr Closed)"

text \<open>
  What \<^verbatim>\<open>stop_recording\<close> hands to the \<^verbatim>\<open>wave\<close> module: the three header parameters
  and the frame data.
\<close>

record wav_file =
  nchannels :: nat
  sampwidth :: nat
  framerate :: nat
  frames :: "byte list"

text \<open>\<^verbatim>\<open>pyaudio.PyAudio().get_sample_size(pyaudio.paInt16)\<close>: two bytes per sample.\<close>

definition paInt16_sample_size :: nat where
  "paInt16_sample_size = 2"

text \<open>
  The fields of \<^verbatim>\<open>AudioRecorder\<close> that the worker and \<^verbatim>\<open>stop_recording\<close> use, and
  \<open>written\<close>: the files written so far, in order, with their names.  (\<^verbatim>\<open>socketio\<close>,
  \<^verbatim>\<open>app\<close> and the constant \<^verbatim>\<open>audio_format\<close> are used by none of the modelled methods.)
  \<open>audio_stream\<close> is \<open>None\<close> until \<^verbatim>\<open>start_recording\<close> has opened the stream.
\<close>

record recorder =
  filename :: string
  channels :: nat
  sample_rate :: nat
  chunk_size :: nat
  audio_stream :: "stream option"
  audio_frames :: "byte list list"
  is_recording :: bool
  silence_threshold :: real
  silence_duration :: real
  last_sound_time :: real
  written :: "(string \<times> wav_file) list"

text \<open>
  \<^verbatim>\<open>__init__\<close>; \<open>now\<close> is the value of \<^verbatim>\<open>time.time()\<close> at construction.
\<close>

definition AudioRecorder ::
  "string \<Rightarrow> nat \<Rightarrow> nat \<Rightarrow> nat \<Rightarrow> real \<Rightarrow> real \<Rightarrow> real \<Rightarrow> recorder" where
  "AudioRecorder fname chans rate chunk threshold duration now =
     \<lparr> filename = fname, channels = chans, sample_rate = rate, chunk_size = chunk,
       audio_stream = None, audio_frames = [], is_recording = False,
       silence_threshold = threshold, silence_duration = duration,
       last_sound_time = now, written = [] \<rparr>"

text \<open>
  \<^verbatim>\<open>start_recording\<close> sets the flag and opens the stream (a stream that cannot be opened
  raises in the library, before any of the modelled code runs); the worker it starts is
  \<open>record_loop\<close> below.
\<close>

definition start_recording :: "recorder \<Rightarrow> recorder" where
  "start_recording s = s\<lparr>is_recording := True, audio_stream := Some Running\<rparr>"

text \<open>
  \<^verbatim>\<open>
  def stop_recording(self):
      self.is_recording = False
      self.audio_stream.stop_stream()
      self.audio_stream.close()
      audio = wave.open(self.filename, 'wb')
      audio.setnchannels(self.channels)
      audio.setsampwidth(pyaudio.PyAudio().get_sample_size(self.audio_format))
      audio.setframerate(self.sample_rate)
      audio.writeframes(b''.join(self.audio_frames))
      audio.close()
  \<close>
  An exception leaves the recorder as it was when it was raised: \<open>Inl\<close> carries the error
  and that state.
\<close>

definition stop_recording :: "recorder \<Rightarrow> (error \<times> recorder) + recorder" where
  "stop_recording s =
     (let s1 = s\<lparr>is_recording := False\<rparr> in
      case audio_stream s1 of
        None \<Rightarrow> Inl (AttributeError, s1)
      | Some st \<Rightarrow>
          (let s2 = s1\<lparr>audio_stream := Some (stop_stream st)\<rparr> in
           case close_stream (stop_stream st) of
             Inl e \<Rightarrow> Inl (e, s2)
           | Inr st' \<Rightarrow>
               (let s3 = s2\<lparr>audio_stream := Some st'\<rparr>;
                    audio = \<lparr> nchannels = channels s3, sampwidth = paInt16_sample_size,
                              framerate = sample_rate s3,
                              frames = concat (audio_frames s3) \<rparr>
                in Inr (s3\<lparr>written := written s3 @ [(filename s3, audio)]\<rparr>))))"

text \<open>
  \<^verbatim>\<open>
  def _record(self):
      while self.is_recording:
          data = self.audio_stream.read(self.chunk_size)
          self.audio_frames.append(data)
          rms = self._calculate_rms(data)
          if rms < self.silence_threshold:
              current_time = time.time()
              if current_time - self.last_sound_time >= self.silence_duration:
                  self.stop_recording()
          else:
              self.last_sound_time = time.time()
  \<close>
  (\<open>record_loop\<close> here.)  Every iteration reads one chunk and, in either branch, the
  clock once: the worker's input is the list of these pairs, in order.  When the list is used
  up the result is the state of a worker that is still in its loop.  Reading needs a stream
  that is open and running (it is, from \<^verbatim>\<open>start_recording\<close> until \<^verbatim>\<open>stop_recording\<close>).
  The energy, the difference of the two clock values and the two comparisons are computed in
  the float arithmetic \<open>fa\<close>.
\<close>

fun record_loop ::
  "float_arith \<Rightarrow> recorder \<Rightarrow> (byte list \<times> real) list \<Rightarrow> (error \<times> recorder) + recorder" where
  "record_loop fa s [] = Inr s"
| "record_loop fa s ((data, now) # rest) =
     (if \<not> is_recording s then Inr s
      else case audio_stream s of
        None \<Rightarrow> Inl (AttributeError, s)
      | Some st \<Rightarrow>
          if st \<noteq> Running then Inl (StreamError, s)
          else
            (let s1 = s\<lparr>audio_frames := audio_frames s @ [data]\<rparr> in
             case calculate_rms_with fa data of
               Inl e \<Rightarrow> Inl (e, s1)
             | Inr rms \<Rightarrow>
                 if rms < silence_threshold s1 then
                   (if fl_sub fa now (last_sound_time s1) \<ge> silence_duration s1 then
                      (case stop_recording s1 of
                         Inl e \<Rightarrow> Inl e
                       | Inr s2 \<Rightarrow> record_loop fa s2 rest)
                    else record_loop fa s1 rest)
                 else record_loop fa (s1\<lparr>last_sound_time := now\<rparr>) rest))"

subsection \<open>Describing chunk sequences\<close>

text \<open>
  The energy of a chunk is the value that \<^verbatim>\<open>_calculate_rms\<close> computes for it.  A chunk is
  \<open>quiet\<close> when it has an energy and the energy is below the threshold, and \<open>loud\<close> when it
  has one that is at or above the threshold.  \<open>last_sound fa t0 thr xs\<close> is the clock value of
  the last loud chunk of \<open>xs\<close>, and \<open>t0\<close> when there is none.
\<close>

definition quiet :: "float_arith \<Rightarrow> real \<Rightarrow> byte list \<Rightarrow> bool" where
  "quiet fa thr data =
     (case calculate_rms_with fa data of Inl e \<Rightarrow> False | Inr rms \<Rightarrow> rms < thr)"

definition loud :: "float_arith \<Rightarrow> real \<Rightarrow> byte list \<Rightarrow> bool" where
  "loud fa thr data =
     (case calculate_rms_with fa data of Inl e \<Rightarrow> False | Inr rms \<Rightarrow> thr \<le> rms)"

fun last_sound :: "float_arith \<Rightarrow> real \<Rightarrow> real \<Rightarrow> (byte list \<times> real) list \<Rightarrow> real" where
  "last_sound fa t0 thr [] = t0"
| "last_sound fa t0 thr ((data, now) # rest) =
     last_sound fa (if loud fa thr data then now else t0) thr rest"

text \<open>
  \<open>silence_elapsed fa s inputs j\<close>: for a recorder in state \<open>s\<close> that reads \<open>inputs\<close>,
  chunk \<open>j\<close> is quiet and the clock read with it is at least \<^verbatim>\<open>silence_duration\<close> after
  the last loud chunk before it (after \<^verbatim>\<open>last_sound_time\<close> as \<open>s\<close> holds it, when no chunk
  before \<open>j\<close> is loud).
\<close>

definition silence_elapsed ::
  "float_arith \<Rightarrow> recorder \<Rightarrow> (byte list \<times> real) list \<Rightarrow> nat \<Rightarrow> bool" where
  "silence_elapsed fa s inputs j \<longleftrightarrow>
     quiet fa (silence_threshold s) (fst (inputs ! j)) \<and>
     silence_duration s \<le>
       fl_sub fa (snd (inputs ! j))
         (last_sound fa (last_sound_time s) (silence_threshold s) (take j inputs))"

section \<open>WebcamImageSender\<close>

text \<open>
  A grayscale image is its array of 8-bit pixels, here in row-major order; the length of the
  list stands for the shape of the array.  \<^verbatim>\<open>cv2.absdiff\<close> takes the absolute difference
  pixel by pixel (on unsigned 8-bit pixels it cannot overflow) and raises when the two
  shapes differ.  \<^verbatim>\<open>diff.sum()\<close> adds the pixels up in a wide unsigned accumulator, which the
  frames of a camera do not overflow: the sum is a natural number.
\<close>

type_synonym image = "byte list"

definition absdiff_pixel :: "byte \<Rightarrow> byte \<Rightarrow> byte" where
  "absdiff_pixel a b = (if a \<le> b then b - a else a - b)"

definition absdiff :: "image \<Rightarrow> image \<Rightarrow> error + image" where
  "absdiff a b =
     (if length a \<noteq> length b then Inl CvError else Inr (map2 absdiff_pixel a b))"

text \<open>
  The library functions that \<^verbatim>\<open>capture_image\<close> applies to a frame \<open>'f\<close> of the camera
  are parameters: \<^verbatim>\<open>cv2.cvtColor(frame, cv2.COLOR_BGR2GRAY)\<close>, \<^verbatim>\<open>cv2.imencode('.jpg', frame)\<close>
  (the buffer it returns) and \<^verbatim>\<open>base64.b64encode(buffer).decode('utf-8')\<close>.
\<close>

record 'f codecs =
  cvtColor_gray :: "'f \<Rightarrow> image"
  imencode_jpg :: "'f \<Rightarrow> byte list"
  b64encode_utf8 :: "byte list \<Rightarrow> string"

text \<open>
  The fields of \<^verbatim>\<open>WebcamImageSender\<close>; \<open>None\<close> is Python's \<^verbatim>\<open>None\<close>.  What the worker
  sends through \<^verbatim>\<open>self.socketio.emit\<close> is its output: a list of events, each an event name
  and its payload.
\<close>

record webcam =
  last_image :: "image option"
  last_change_time :: "real option"
  is_running :: bool

type_synonym emitted = "string \<times> string"

definition WebcamImageSender :: webcam where
  "WebcamImageSender = \<lparr> last_image = None, last_change_time = None, is_running = False \<rparr>"

definition start_capture :: "webcam \<Rightarrow> webcam" where
  "start_capture s = s\<lparr>is_running := True\<rparr>"

definition stop_capture :: "webcam \<Rightarrow> webcam" where
  "stop_capture s = s\<lparr>is_running := False\<rparr>"

text \<open>
  \<^verbatim>\<open>
  def image_difference(self, image):
      if self.last_image is None:
          return 0
      diff = cv2.absdiff(image, self.last_image)
      diff_sum = diff.sum()
      return diff_sum
  \<close>
  (the parameter \<^verbatim>\<open>image\<close> is \<open>img\<close> here).
\<close>

definition image_difference :: "webcam \<Rightarrow> image \<Rightarrow> error + nat" where
  "image_difference s img =
     (case last_image s of
        None \<Rightarrow> Inr 0
      | Some last_img \<Rightarrow>
          (case absdiff img last_img of
             Inl e \<Rightarrow> Inl e
           | Inr diff \<Rightarrow> Inr (sum_list (map unat diff))))"

text \<open>
  One iteration of the loop of \<^verbatim>\<open>capture_image\<close>:
  \<^verbatim>\<open>
  ret, frame = cap.read()
  gray = cv2.cvtColor(frame, cv2.COLOR_BGR2GRAY)
  if self.last_image is None or self.image_difference(gray) > 2:
      self.last_image = gray
      self.last_change_time = time.time()
  _, buffer = cv2.imencode('.jpg', frame)
  image_base64 = base64.b64encode(buffer)
  self.socketio.emit("image", image_base64.decode('utf-8'))
  \<close>
  \<open>stable_frame_changed\<close> is the condition of the \<^verbatim>\<open>if\<close>, with Python's short-circuit
  \<^verbatim>\<open>or\<close>.  The input of an iteration is what \<^verbatim>\<open>cap.read()\<close> returns (\<open>None\<close> when the read
  fails: the code ignores \<^verbatim>\<open>ret\<close>, and \<^verbatim>\<open>cv2.cvtColor\<close> raises on \<^verbatim>\<open>None\<close>) and the
  value of the clock.  The result is the new state and the event emitted.
\<close>

definition stable_frame_changed :: "webcam \<Rightarrow> image \<Rightarrow> error + bool" where
  "stable_frame_changed s gray =
     (if last_image s = None then Inr True
      else case image_difference s gray of
        Inl e \<Rightarrow> Inl e
      | Inr diff_sum \<Rightarrow> Inr (diff_sum > 2))"

definition capture_step ::
  "'f codecs \<Rightarrow> webcam \<Rightarrow> 'f option \<times> real \<Rightarrow> error + (webcam \<times> emitted)" where
  "capture_step cv s input =
     (case fst input of
        None \<Rightarrow> Inl CvError
      | Some frame \<Rightarrow>
          (let gray = cvtColor_gray cv frame in
           case stable_frame_changed s gray of
             Inl e \<Rightarrow> Inl e
           | Inr changed \<Rightarrow>
               (let s1 = (if changed
                          then s\<lparr>last_image := Some gray, last_change_time := Some (snd input)\<rparr>
                          else s);
                    buffer = imencode_jpg cv frame;
                    image_base64 = b64encode_utf8 cv buffer
                in Inr (s1, (''image'', image_base64)))))"

text \<open>
  The loop \<^verbatim>\<open>while self.is_running\<close> over the reads made while the sender is running.
  (The camera handle is opened before the loop and released after it; it holds no state of
  the sender.)
  \<open>sent\<close> collects the events emitted so far; an exception ends the worker and leaves the
  state and the events as they were when it was raised.
\<close>

fun capture_loop ::
  "'f codecs \<Rightarrow> webcam \<Rightarrow> ('f option \<times> real) list \<Rightarrow> emitted list \<Rightarrow>
   (error \<times> webcam \<times> emitted list) + (webcam \<times> emitted list)" where
  "capture_loop cv s [] sent = Inr (s, sent)"
| "capture_loop cv s (input # rest) sent =
     (if \<not> is_running s then Inr (s, sent)
      else case capture_step cv s input of
        Inl e \<Rightarrow> Inl (e, s, sent)
      | Inr (s1, event) \<Rightarrow> capture_loop cv s1 rest (sent @ [event]))"

definition capture_image ::
  "'f codecs \<Rightarrow> webcam \<Rightarrow> ('f option \<times> real) list \<Rightarrow>
   (error \<times> webcam \<times> emitted list) + (webcam \<times> emitted list)" where
  "capture_image cv s inputs = capture_loop cv s inputs []"

section \<open>MusicPlayer\<close>

text \<open>
  The mixer is a process-wide device of a third-party library: the model records the
  commands sent to it, in order, and takes what \<^verbatim>\<open>get_busy()\<close> answers as an input.
\<close>

datatype mixer_command =
    MixerInit | MusicLoad string | MusicPlay | MusicPause | MusicUnpause | MusicStop

text \<open>
  \<^verbatim>\<open>run\<close> executes in a thread of its own while \<^verbatim>\<open>pause\<close>, \<^verbatim>\<open>resume\<close> and \<^verbatim>\<open>stop\<close> are
  called from the controlling thread.  \<open>worker\<close> says where \<^verbatim>\<open>run\<close> stands: not yet begun,
  about to evaluate the condition of its \<^verbatim>\<open>while\<close>, inside the body of the loop (the
  condition held), or returned.
\<close>

datatype worker = NotStarted | AtTest | InBody | Exited

record music_player =
  file_path :: string
  paused :: bool
  stopped :: bool
  worker :: worker
  mixer_log :: "mixer_command list"

text \<open>
  \<^verbatim>\<open>__init__\<close>; \<open>sent_before\<close> are the commands that the process has sent to the mixer
  before.
\<close>

definition MusicPlayer :: "string \<Rightarrow> mixer_command list \<Rightarrow> music_player" where
  "MusicPlayer path sent_before =
     \<lparr> file_path = path, paused = False, stopped = False, worker = NotStarted,
       mixer_log = sent_before \<rparr>"

text \<open>
  \<^verbatim>\<open>
  def pause(self):   self.paused = True
  def resume(self):  self.paused = False
  def stop(self):
      self.stopped = True
      pygame.mixer.music.stop()
  \<close>
\<close>

definition pause :: "music_player \<Rightarrow> music_player" where
  "pause s = s\<lparr>paused := True\<rparr>"

definition resume :: "music_player \<Rightarrow> music_player" where
  "resume s = s\<lparr>paused := False\<rparr>"

definition stop :: "music_player \<Rightarrow> music_player" where
  "stop s = s\<lparr>stopped := True, mixer_log := mixer_log s @ [MusicStop]\<rparr>"

text \<open>
  \<^verbatim>\<open>
  def run(self):
      pygame.mixer.init()
      pygame.mixer.music.load(self.file_path)
      pygame.mixer.music.play()
      while pygame.mixer.music.get_busy() and not self.stopped:
          if self.paused:
              pygame.mixer.music.pause()
          else:
              pygame.mixer.music.unpause()
  \<close>
  in three kinds of steps: the three calls before the loop, one evaluation of the loop's
  condition (\<open>busy\<close> is the answer of \<^verbatim>\<open>get_busy()\<close>), and one execution of its body.  A
  step that is not the worker's next one leaves the state as it is.
\<close>

definition run_begin :: "music_player \<Rightarrow> music_player" where
  "run_begin s =
     (if worker s = NotStarted
      then s\<lparr>mixer_log := mixer_log s @ [MixerInit, MusicLoad (file_path s), MusicPlay],
              worker := AtTest\<rparr>
      else s)"

definition run_test :: "bool \<Rightarrow> music_player \<Rightarrow> music_player" where
  "run_test busy s =
     (if worker s = AtTest
      then (if busy \<and> \<not> stopped s then s\<lparr>worker := InBody\<rparr> else s\<lparr>worker := Exited\<rparr>)
      else s)"

definition run_body :: "music_player \<Rightarrow> music_player" where
  "run_body s =
     (if worker s = InBody
      then (if paused s
            then s\<lparr>mixer_log := mixer_log s @ [MusicPause], worker := AtTest\<rparr>
            else s\<lparr>mixer_log := mixer_log s @ [MusicUnpause], worker := AtTest\<rparr>)
      else s)"

text \<open>
  What can happen to a player, one event at a time: a step of the worker or a call from the
  controlling thread.  \<open>run_events\<close> applies a list of events from left to right.
\<close>

datatype event =
    RunBegin | RunTest bool | RunBody | CallPause | CallResume | CallStop

fun run_event :: "event \<Rightarrow> music_player \<Rightarrow> music_player" where
  "run_event RunBegin s = run_begin s"
| "run_event (RunTest busy) s = run_test busy s"
| "run_event RunBody s = run_body s"
| "run_event CallPause s = pause s"
| "run_event CallResume s = resume s"
| "run_event CallStop s = stop s"

fun run_events :: "event list \<Rightarrow> music_player \<Rightarrow> music_player" where
  "run_events [] s = s"
| "run_events (e # es) s = run_events es (run_event e s)"

text \<open>The commands that pause or continue the music: what the body of the loop sends.\<close>

definition pause_command :: "mixer_command \<Rightarrow> bool" where
  "pause_command c = (c = MusicPause \<or> c = MusicUnpause)"

section \<open>Properties of \<^verbatim>\<open>_calculate_rms\<close>\<close>

lemma squared_sum_nonneg: "0 \<le> squared_sum data"
  unfolding squared_sum_def by (rule sum_list_nonneg) auto

lemma squared_sum_eq_0_iff: "squared_sum data = 0 \<longleftrightarrow> (\<forall>b \<in> set data. b = 0)"
proof -
  have "squared_sum data = 0 \<longleftrightarrow> (\<forall>x \<in> set (map (\<lambda>sample. (int (unat sample)) ^ 2) data). x = 0)"
    unfolding squared_sum_def by (rule sum_list_nonneg_eq_0_iff) auto
  also have "\<dots> \<longleftrightarrow> (\<forall>b \<in> set data. b = 0)"
    by (auto simp: unsigned_eq_0_iff)
  finally show ?thesis .
qed

lemma squared_sum_pos: "\<not> (\<forall>b \<in> set data. b = 0) \<Longrightarrow> 1 \<le> squared_sum data"
  using squared_sum_nonneg [of data] squared_sum_eq_0_iff [of data] by linarith

lemma calculate_rms_nonempty:
  "data \<noteq> [] \<Longrightarrow>
   calculate_rms data = Inr (sqrt (real_of_int (squared_sum data) / real (length data)))"
  by (simp add: calculate_rms_def)

lemma rms_zero_iff:
  assumes "data \<noteq> []"
  shows "sqrt (real_of_int (squared_sum data) / real (length data)) = 0
         \<longleftrightarrow> (\<forall>b \<in> set data. b = 0)"
  using assms squared_sum_eq_0_iff [of data] by simp

lemma rms_small_iff:
  assumes "data \<noteq> []" and "length data \<le> 10000"
  shows "sqrt (real_of_int (squared_sum data) / real (length data)) < 1 / 100
         \<longleftrightarrow> (\<forall>b \<in> set data. b = 0)"
proof
  assume z: "\<forall>b \<in> set data. b = 0"
  then have "squared_sum data = 0" by (simp add: squared_sum_eq_0_iff)
  then show "sqrt (real_of_int (squared_sum data) / real (length data)) < 1 / 100" by simp
next
  assume lt: "sqrt (real_of_int (squared_sum data) / real (length data)) < 1 / 100"
  show "\<forall>b \<in> set data. b = 0"
  proof (rule ccontr)
    assume "\<not> (\<forall>b \<in> set data. b = 0)"
    then have "1 \<le> squared_sum data" by (rule squared_sum_pos)
    then have one: "1 \<le> real_of_int (squared_sum data)" by simp
    have n: "0 < real (length data)" "real (length data) \<le> 10000" using assms by simp_all
    have "1 / 10000 \<le> 1 / real (length data)"
      using n by (simp add: field_simps)
    also have "\<dots> \<le> real_of_int (squared_sum data) / real (length data)"
      using one n by (simp add: divide_right_mono)
    finally have "(1 / 100)\<^sup>2 \<le> real_of_int (squared_sum data) / real (length data)"
      by (simp add: power2_eq_square)
    then have "1 / 100 \<le> sqrt (real_of_int (squared_sum data) / real (length data))"
      by (rule real_le_rsqrt)
    with lt show False by simp
  qed
qed

text \<open>
  Claim C10.  \<^verbatim>\<open>_calculate_rms\<close> divides by the length of its input without a guard: on
  the empty chunk it raises \<^verbatim>\<open>ZeroDivisionError\<close>; on a chunk that is not empty it raises
  nothing and returns the square root of the mean of the squares.
\<close>

theorem calculate_rms_division_guard:
  "calculate_rms [] = Inl ZeroDivisionError \<and>
   (data \<noteq> [] \<longrightarrow>
      (\<forall>e. calculate_rms data \<noteq> Inl e) \<and>
      calculate_rms data = Inr (sqrt (real_of_int (squared_sum data) / real (length data))))"
  by (simp add: calculate_rms_def)

theorem calculate_rms_division_guard_witness:
  "calculate_rms [] = Inl ZeroDivisionError \<and> [3, 4 :: byte] \<noteq> [] \<and>
   calculate_rms [3, 4] = Inr (sqrt (25 / 2))"
  using calculate_rms_division_guard [of "[3, 4]"] by (simp add: squared_sum_def)

text \<open>
  Claim C9, amended.  On a chunk that is not empty, \<^verbatim>\<open>_calculate_rms\<close> works on the raw
  bytes, read as the unsigned values 0 to 255: its result is the square root of the mean of
  their squares, it is never negative, and it is 0 exactly when every byte is 0.  With the
  default threshold 0.01, a chunk of at most 10000 bytes is classified as silent exactly when
  all of its bytes are 0.  (The default chunk of 1024 16-bit mono frames has 2048 bytes.)
\<close>

theorem calculate_rms_over_bytes:
  assumes "data \<noteq> []"
  shows "\<exists>rms. calculate_rms data = Inr rms \<and>
           rms = sqrt (real_of_int (\<Sum>sample\<leftarrow>data. (int (unat sample))\<^sup>2) / real (length data)) \<and>
           0 \<le> rms \<and>
           (rms = 0 \<longleftrightarrow> (\<forall>b \<in> set data. b = 0)) \<and>
           (length data \<le> 10000 \<longrightarrow>
              (silent (1 / 100) data \<longleftrightarrow> (\<forall>b \<in> set data. b = 0)))"
proof -
  let ?r = "sqrt (real_of_int (squared_sum data) / real (length data))"
  have r: "calculate_rms data = Inr ?r" using assms by (rule calculate_rms_nonempty)
  have nonneg: "0 \<le> ?r" using squared_sum_nonneg [of data] by simp
  have zero: "?r = 0 \<longleftrightarrow> (\<forall>b \<in> set data. b = 0)" using assms by (rule rms_zero_iff)
  have small: "length data \<le> 10000 \<longrightarrow> (silent (1 / 100) data \<longleftrightarrow> (\<forall>b \<in> set data. b = 0))"
    using rms_small_iff [OF assms] by (simp add: silent_def r)
  have "?r = sqrt (real_of_int (\<Sum>sample\<leftarrow>data. (int (unat sample))\<^sup>2) / real (length data))"
    by (simp add: squared_sum_def)
  with r nonneg zero small show ?thesis by blast
qed

theorem calculate_rms_over_bytes_witness:
  "[0, 0 :: byte] \<noteq> [] \<and> calculate_rms [0, 0] = Inr 0 \<and> silent (1 / 100) [0, 0] \<and>
   length [0, 0 :: byte] \<le> 10000"
  using calculate_rms_over_bytes [of "[0, 0]"] by (simp add: calculate_rms_def squared_sum_def silent_def)

text \<open>
  The bound on the length is needed.  A chunk of 5001 16-bit frames whose first byte is 1
  and whose other 10001 bytes are 0 has the energy \<open>sqrt (1 / 10002)\<close>, below 0.01: it is
  classified as silent although one of its bytes is not 0.
\<close>

theorem long_chunk_counterexample:
  "silent (1 / 100) (1 # 0 # replicate 10000 0) \<and>
   \<not> (\<forall>b \<in> set (1 # 0 # replicate 10000 (0 :: byte)). b = 0)"
proof -
  have "squared_sum (1 # 0 # replicate 10000 0) = 1"
    by (simp add: squared_sum_def sum_list_replicate)
  then have "calculate_rms (1 # 0 # replicate 10000 0) = Inr (sqrt (1 / 10002))"
    by (simp add: calculate_rms_def)
  moreover have "sqrt (1 / 10002) < (1 / 100 :: real)"
    by (rule real_less_lsqrt) (simp_all add: power2_eq_square)
  ultimately show ?thesis by (simp add: silent_def)
qed

section \<open>Properties of the recording session\<close>

lemma stop_recording_open:
  assumes "audio_stream s = Some st" and "st \<noteq> Closed"
  shows "stop_recording s =
           Inr (s\<lparr>is_recording := False, audio_stream := Some Closed,
                  written := written s @
                    [(filename s,
                      \<lparr> nchannels = channels s, sampwidth = 2, framerate = sample_rate s,
                        frames = concat (audio_frames s) \<rparr>)]\<rparr>)"
  using assms
  by (cases st) (simp_all add: stop_recording_def stop_stream_def close_stream_def
      paInt16_sample_size_def Let_def)

lemma stop_recording_closed:
  assumes "audio_stream s = Some Closed"
  shows "stop_recording s = Inl (StreamError, s\<lparr>is_recording := False\<rparr>)"
  using assms by (simp add: stop_recording_def stop_stream_def close_stream_def Let_def)

lemma calculate_rms_with_exact: "calculate_rms_with exact_arith data = calculate_rms data"
  by (simp add: calculate_rms_with_def calculate_rms_def exact_arith_def)

lemma quiet_exact: "quiet exact_arith thr data \<longleftrightarrow> silent thr data"
  by (simp add: quiet_def silent_def calculate_rms_with_exact)

lemma quiet_iff_not_loud: "data \<noteq> [] \<Longrightarrow> quiet fa thr data \<longleftrightarrow> \<not> loud fa thr data"
  by (auto simp: quiet_def loud_def calculate_rms_with_def)

lemma record_loop_not_recording: "\<not> is_recording s \<Longrightarrow> record_loop fa s inputs = Inr s"
  by (cases inputs) auto

lemma record_loop_step_loud:
  assumes "is_recording s" and "audio_stream s = Some Running"
    and "loud fa (silence_threshold s) data"
  shows "record_loop fa s ((data, now) # rest) =
         record_loop fa (s\<lparr>audio_frames := audio_frames s @ [data], last_sound_time := now\<rparr>)
           rest"
  using assms by (auto simp: loud_def Let_def split: sum.splits)

lemma record_loop_step_quiet:
  assumes "is_recording s" and "audio_stream s = Some Running"
    and "quiet fa (silence_threshold s) data"
    and "\<not> silence_duration s \<le> fl_sub fa now (last_sound_time s)"
  shows "record_loop fa s ((data, now) # rest) =
         record_loop fa (s\<lparr>audio_frames := audio_frames s @ [data]\<rparr>) rest"
  using assms by (auto simp: quiet_def Let_def split: sum.splits)

lemma record_loop_step_stop:
  assumes "is_recording s" and "audio_stream s = Some Running"
    and "quiet fa (silence_threshold s) data"
    and "silence_duration s \<le> fl_sub fa now (last_sound_time s)"
  shows "record_loop fa s ((data, now) # rest) =
         stop_recording (s\<lparr>audio_frames := audio_frames s @ [data]\<rparr>)"
proof -
  let ?s1 = "s\<lparr>audio_frames := audio_frames s @ [data]\<rparr>"
  have "audio_stream ?s1 = Some Running" using assms(2) by simp
  then obtain s2 where s2: "stop_recording ?s1 = Inr s2" and "\<not> is_recording s2"
    using stop_recording_open [of ?s1 Running] by simp
  then have "record_loop fa s2 rest = Inr s2" by (simp add: record_loop_not_recording)
  with s2 assms show ?thesis by (auto simp: quiet_def Let_def split: sum.splits)
qed

lemma record_loop_loud:
  assumes "is_recording s" and "audio_stream s = Some Running"
    and "\<forall>x \<in> set inputs. loud fa (silence_threshold s) (fst x)"
  shows "record_loop fa s inputs =
         Inr (s\<lparr>audio_frames := audio_frames s @ map fst inputs,
                last_sound_time :=
                  last_sound fa (last_sound_time s) (silence_threshold s) inputs\<rparr>)"
  using assms
proof (induction inputs arbitrary: s)
  case Nil
  then show ?case by simp
next
  case (Cons x rest)
  obtain data now where x: "x = (data, now)" by (cases x)
  let ?s1 = "s\<lparr>audio_frames := audio_frames s @ [data], last_sound_time := now\<rparr>"
  have l: "loud fa (silence_threshold s) data" using Cons.prems(3) x by simp
  have "record_loop fa s (x # rest) = record_loop fa ?s1 rest"
    unfolding x using Cons.prems(1,2) l by (rule record_loop_step_loud)
  also have "\<dots> = Inr (?s1\<lparr>audio_frames := audio_frames ?s1 @ map fst rest,
                last_sound_time :=
                  last_sound fa (last_sound_time ?s1) (silence_threshold ?s1) rest\<rparr>)"
    using Cons.prems by (intro Cons.IH) simp_all
  finally show ?case using l by (simp add: x)
qed

lemma silence_elapsed_0:
  "silence_elapsed fa s ((data, now) # rest) 0 \<longleftrightarrow>
     quiet fa (silence_threshold s) data \<and>
     silence_duration s \<le> fl_sub fa now (last_sound_time s)"
  by (simp add: silence_elapsed_def)

lemma silence_elapsed_Suc_loud:
  assumes "loud fa (silence_threshold s) data"
  shows "silence_elapsed fa s ((data, now) # rest) (Suc j) \<longleftrightarrow>
         silence_elapsed fa (s\<lparr>audio_frames := fs, last_sound_time := now\<rparr>) rest j"
  using assms by (simp add: silence_elapsed_def)

lemma silence_elapsed_Suc_quiet:
  assumes "\<not> loud fa (silence_threshold s) data"
  shows "silence_elapsed fa s ((data, now) # rest) (Suc j) \<longleftrightarrow>
         silence_elapsed fa (s\<lparr>audio_frames := fs\<rparr>) rest j"
  using assms by (simp add: silence_elapsed_def)

lemma record_loop_first_silence:
  assumes "is_recording s" and "audio_stream s = Some Running"
    and "n < length inputs"
    and "\<forall>x \<in> set (take (Suc n) inputs). fst x \<noteq> []"
    and "silence_elapsed fa s inputs n"
    and "\<forall>j<n. \<not> silence_elapsed fa s inputs j"
  shows "record_loop fa s inputs =
         stop_recording
           (s\<lparr>audio_frames := audio_frames s @ map fst (take (Suc n) inputs),
              last_sound_time :=
                last_sound fa (last_sound_time s) (silence_threshold s) (take n inputs)\<rparr>)"
  using assms
proof (induction inputs arbitrary: s n)
  case Nil
  then show ?case by simp
next
  case (Cons x rest)
  obtain data now where x: "x = (data, now)" by (cases x)
  have data: "data \<noteq> []" using Cons.prems(4) x by simp
  let ?thr = "silence_threshold s"
  let ?s1 = "s\<lparr>audio_frames := audio_frames s @ [data]\<rparr>"
  let ?s2 = "s\<lparr>audio_frames := audio_frames s @ [data], last_sound_time := now\<rparr>"
  show ?case
  proof (cases n)
    case 0
    with Cons.prems(5) x have "quiet fa ?thr data"
      and "silence_duration s \<le> fl_sub fa now (last_sound_time s)"
      by (simp_all add: silence_elapsed_0)
    with Cons.prems(1,2) have "record_loop fa s (x # rest) = stop_recording ?s1"
      unfolding x by (rule record_loop_step_stop)
    with 0 show ?thesis by (simp add: x)
  next
    case (Suc m)
    have m: "m < length rest" using Cons.prems(3) Suc by simp
    have ne: "\<forall>y \<in> set (take (Suc m) rest). fst y \<noteq> []"
      using Cons.prems(4) Suc by simp
    from Cons.prems(6) Suc have not0: "\<not> silence_elapsed fa s (x # rest) 0" by simp
    show ?thesis
    proof (cases "loud fa ?thr data")
      case True
      have step: "record_loop fa s (x # rest) = record_loop fa ?s2 rest"
        unfolding x using Cons.prems(1,2) True by (rule record_loop_step_loud)
      have at: "silence_elapsed fa ?s2 rest m"
        using Cons.prems(5) Suc x silence_elapsed_Suc_loud [OF True, where fs = "audio_frames s @ [data]"] by simp
      have before: "\<forall>j<m. \<not> silence_elapsed fa ?s2 rest j"
        using Cons.prems(6) Suc x silence_elapsed_Suc_loud [OF True, where fs = "audio_frames s @ [data]"] by auto
      have "record_loop fa ?s2 rest =
         stop_recording
           (?s2\<lparr>audio_frames := audio_frames ?s2 @ map fst (take (Suc m) rest),
              last_sound_time :=
                last_sound fa (last_sound_time ?s2) (silence_threshold ?s2) (take m rest)\<rparr>)"
        using Cons.prems(1,2) m ne at before by (intro Cons.IH) simp_all
      with step True Suc show ?thesis by (simp add: x)
    next
      case False
      then have q: "quiet fa ?thr data" using data by (simp add: quiet_iff_not_loud)
      with not0 x have late: "\<not> silence_duration s \<le> fl_sub fa now (last_sound_time s)"
        by (simp add: silence_elapsed_0)
      have step: "record_loop fa s (x # rest) = record_loop fa ?s1 rest"
        unfolding x using Cons.prems(1,2) q late by (rule record_loop_step_quiet)
      have at: "silence_elapsed fa ?s1 rest m"
        using Cons.prems(5) Suc x silence_elapsed_Suc_quiet [OF False, where fs = "audio_frames s @ [data]"] by simp
      have before: "\<forall>j<m. \<not> silence_elapsed fa ?s1 rest j"
        using Cons.prems(6) Suc x silence_elapsed_Suc_quiet [OF False, where fs = "audio_frames s @ [data]"] by auto
      have "record_loop fa ?s1 rest =
         stop_recording
           (?s1\<lparr>audio_frames := audio_frames ?s1 @ map fst (take (Suc m) rest),
              last_sound_time :=
                last_sound fa (last_sound_time ?s1) (silence_threshold ?s1) (take m rest)\<rparr>)"
        using Cons.prems(1,2) m ne at before by (intro Cons.IH) simp_all
      with step False Suc show ?thesis by (simp add: x)
    qed
  qed
qed

text \<open>
  Claim C2.  On a started recorder, when the energy that \<^verbatim>\<open>_calculate_rms\<close> computes for
  every chunk read is at or above \<^verbatim>\<open>silence_threshold\<close>, the worker reads all of the chunks
  and never calls \<^verbatim>\<open>stop_recording()\<close>: it is still recording, the stream is still running,
  and no file has been written.  A call of \<^verbatim>\<open>stop_recording()\<close> from outside then succeeds
  and ends the loop: the worker reads nothing more.  This holds in every float arithmetic.
\<close>

theorem loud_chunks_never_self_stop:
  assumes "is_recording s" and "audio_stream s = Some Running"
    and "\<forall>x \<in> set inputs. loud fa (silence_threshold s) (fst x)"
  shows "\<exists>s'. record_loop fa s inputs = Inr s' \<and>
           is_recording s' \<and> audio_stream s' = Some Running \<and> written s' = written s \<and>
           audio_frames s' = audio_frames s @ map fst inputs \<and>
           (\<exists>s''. stop_recording s' = Inr s'' \<and> \<not> is_recording s'' \<and>
                  (\<forall>more. record_loop fa s'' more = Inr s''))"
proof -
  let ?s' = "s\<lparr>audio_frames := audio_frames s @ map fst inputs,
               last_sound_time :=
                 last_sound fa (last_sound_time s) (silence_threshold s) inputs\<rparr>"
  have run: "record_loop fa s inputs = Inr ?s'" using assms by (rule record_loop_loud)
  have "audio_stream ?s' = Some Running" using assms(2) by simp
  then obtain s'' where stop: "stop_recording ?s' = Inr s''" and off: "\<not> is_recording s''"
    using stop_recording_open [of ?s' Running] by simp
  from off have "\<forall>more. record_loop fa s'' more = Inr s''"
    by (simp add: record_loop_not_recording)
  with run stop off assms(1,2) show ?thesis by simp
qed

theorem loud_chunks_never_self_stop_witness:
  "is_recording (start_recording (AudioRecorder ''out.wav'' 1 44100 1024 (1 / 100) 2 0)) \<and>
   loud exact_arith (1 / 100) [2, 0, 0, 0] \<and>
   (\<exists>s'. record_loop exact_arith
            (start_recording (AudioRecorder ''out.wav'' 1 44100 1024 (1 / 100) 2 0))
            [([2, 0, 0, 0], 1), ([2, 0, 0, 0], 5)] = Inr s' \<and>
         is_recording s' \<and> written s' = [] \<and>
         audio_frames s' = [[2, 0, 0, 0], [2, 0, 0, 0]])"
proof -
  let ?s = "start_recording (AudioRecorder ''out.wav'' 1 44100 1024 (1 / 100) 2 0)"
  let ?inputs = "[([2, 0, 0, 0], 1), ([2, 0, 0, 0], 5 :: real)] :: (byte list \<times> real) list"
  have l: "loud exact_arith (1 / 100) [2, 0, 0, 0]"
    by (simp add: loud_def calculate_rms_with_def exact_arith_def squared_sum_def)
  have s: "is_recording ?s" "audio_stream ?s = Some Running"
    by (simp_all add: start_recording_def AudioRecorder_def)
  have "\<forall>x \<in> set ?inputs. loud exact_arith (silence_threshold ?s) (fst x)"
    by (simp add: start_recording_def AudioRecorder_def l)
  from loud_chunks_never_self_stop [OF s this]
  obtain s' where "record_loop exact_arith ?s ?inputs = Inr s'" and "is_recording s'"
    and "written s' = written ?s" and "audio_frames s' = audio_frames ?s @ map fst ?inputs"
    by auto
  moreover have "written ?s = []" and "audio_frames ?s = []"
    by (simp_all add: start_recording_def AudioRecorder_def)
  ultimately show ?thesis using l s(1) by (intro conjI exI [of _ s']) simp_all
qed

text \<open>
  Claim C1.  Let a started recorder read a sequence of chunks in which the energy computed
  for chunk \<open>k\<close> is below \<^verbatim>\<open>silence_threshold\<close> and chunk \<open>k\<close> is read at least
  \<^verbatim>\<open>silence_duration\<close> seconds after the last chunk before it whose energy was at or above
  the threshold (after \<^verbatim>\<open>last_sound_time\<close> as the recorder holds it, when there is none);
  every chunk up to \<open>k\<close> has an energy, that is, is not empty.  Then the worker calls
  \<^verbatim>\<open>stop_recording()\<close> itself, and it does so at the first chunk \<open>n\<close> of the sequence of which
  the same is true, and at no chunk before it: the loop returns what \<^verbatim>\<open>stop_recording()\<close>
  returns on the recorder that has read the first \<open>n + 1\<close> chunks, the recorder is no longer
  recording, its stream is closed, and exactly one file has been written, holding the chunks
  buffered before followed by the \<open>n + 1\<close> chunks read, in the order in which they were read.
  This holds in every float arithmetic.
\<close>

theorem sustained_silence_self_stops:
  assumes "is_recording s" and "audio_stream s = Some Running"
    and "k < length inputs"
    and "\<forall>x \<in> set (take (Suc k) inputs). fst x \<noteq> []"
    and "silence_elapsed fa s inputs k"
  shows "\<exists>n\<le>k.
           silence_elapsed fa s inputs n \<and> (\<forall>j<n. \<not> silence_elapsed fa s inputs j) \<and>
           (\<exists>s'. record_loop fa s inputs = Inr s' \<and>
              stop_recording
                (s\<lparr>audio_frames := audio_frames s @ map fst (take (Suc n) inputs),
                   last_sound_time :=
                     last_sound fa (last_sound_time s) (silence_threshold s) (take n inputs)\<rparr>)
                = Inr s' \<and>
              \<not> is_recording s' \<and> audio_stream s' = Some Closed \<and>
              audio_frames s' = audio_frames s @ map fst (take (Suc n) inputs) \<and>
              written s' = written s @
                [(filename s,
                  \<lparr> nchannels = channels s, sampwidth = 2, framerate = sample_rate s,
                    frames = concat (audio_frames s @ map fst (take (Suc n) inputs)) \<rparr>)])"
proof -
  define n where "n = (LEAST j. silence_elapsed fa s inputs j)"
  have at: "silence_elapsed fa s inputs n"
    unfolding n_def using assms(5) by (rule LeastI)
  have le: "n \<le> k"
    unfolding n_def using assms(5) by (rule Least_le)
  have before: "\<forall>j<n. \<not> silence_elapsed fa s inputs j"
    unfolding n_def using not_less_Least by blast
  have len: "n < length inputs" using le assms(3) by simp
  have "set (take (Suc n) inputs) \<subseteq> set (take (Suc k) inputs)"
    using le by (intro set_take_subset_set_take) simp
  with assms(4) have ne: "\<forall>x \<in> set (take (Suc n) inputs). fst x \<noteq> []" by blast
  let ?s0 = "s\<lparr>audio_frames := audio_frames s @ map fst (take (Suc n) inputs),
                last_sound_time :=
                  last_sound fa (last_sound_time s) (silence_threshold s) (take n inputs)\<rparr>"
  have run: "record_loop fa s inputs = stop_recording ?s0"
    using assms(1,2) len ne at before by (rule record_loop_first_silence)
  have "audio_stream ?s0 = Some Running" using assms(2) by simp
  note stop = stop_recording_open [OF this, simplified]
  show ?thesis
    using le at before run stop by (intro exI [of _ n]) simp
qed

theorem sustained_silence_self_stops_witness:
  "is_recording (start_recording (AudioRecorder ''out.wav'' 1 44100 1024 (1 / 100) 2 0)) \<and>
   silence_elapsed exact_arith
     (start_recording (AudioRecorder ''out.wav'' 1 44100 1024 (1 / 100) 2 0))
     [([2, 0, 0, 0], 1), ([0, 0], 2), ([0, 0], 7 / 2), ([0, 0], 4)] 3 \<and>
   (\<exists>s'. record_loop exact_arith
            (start_recording (AudioRecorder ''out.wav'' 1 44100 1024 (1 / 100) 2 0))
            [([2, 0, 0, 0], 1), ([0, 0], 2), ([0, 0], 7 / 2), ([0, 0], 4)] = Inr s' \<and>
      \<not> is_recording s' \<and>
      audio_frames s' = [[2, 0, 0, 0], [0, 0], [0, 0]] \<and>
      written s' =
        [(''out.wav'',
          \<lparr> nchannels = 1, sampwidth = 2, framerate = 44100,
            frames = [2, 0, 0, 0, 0, 0, 0, 0] \<rparr>)])"
proof -
  let ?s = "start_recording (AudioRecorder ''out.wav'' 1 44100 1024 (1 / 100) 2 0)"
  let ?inputs = "[([2, 0, 0, 0], 1), ([0, 0], 2), ([0, 0], 7 / 2), ([0, 0], 4 :: real)]
                   :: (byte list \<times> real) list"
  have l: "loud exact_arith (1 / 100) [2, 0, 0, 0]"
    by (simp add: loud_def calculate_rms_with_def exact_arith_def squared_sum_def)
  have q: "quiet exact_arith (1 / 100) [0, 0]"
    by (simp add: quiet_def calculate_rms_with_def exact_arith_def squared_sum_def)
  then have nl: "\<not> loud exact_arith (1 / 100) [0, 0]"
    by (simp add: quiet_iff_not_loud)
  from l have nq: "\<not> quiet exact_arith (1 / 100) [2, 0, 0, 0]"
    by (simp add: quiet_iff_not_loud)
  have sub: "fl_sub exact_arith = (\<lambda>x y. x - y)" by (simp add: exact_arith_def)
  have s: "is_recording ?s" "audio_stream ?s = Some Running"
    by (simp_all add: start_recording_def AudioRecorder_def)
  have f: "silence_threshold ?s = 1 / 100" "silence_duration ?s = 2" "last_sound_time ?s = 0"
    "written ?s = []" "audio_frames ?s = []" "filename ?s = ''out.wav''"
    "channels ?s = 1" "sample_rate ?s = 44100"
    by (simp_all add: start_recording_def AudioRecorder_def)
  have k: "3 < length ?inputs" by simp
  have ne: "\<forall>x \<in> set (take (Suc 3) ?inputs). fst x \<noteq> []" by simp
  have e0: "\<not> silence_elapsed exact_arith ?s ?inputs 0"
    unfolding silence_elapsed_def f using nq by simp
  have e1: "\<not> silence_elapsed exact_arith ?s ?inputs 1"
    unfolding silence_elapsed_def f using l q nl sub by simp
  have e2: "silence_elapsed exact_arith ?s ?inputs 2"
    unfolding silence_elapsed_def f using l q nl sub by simp
  have e3: "silence_elapsed exact_arith ?s ?inputs 3"
    unfolding silence_elapsed_def f using l q nl sub by simp
  from sustained_silence_self_stops [OF s k ne e3]
  obtain n s' where "n \<le> 3" and at: "silence_elapsed exact_arith ?s ?inputs n"
    and before: "\<forall>j<n. \<not> silence_elapsed exact_arith ?s ?inputs j"
    and run: "record_loop exact_arith ?s ?inputs = Inr s'" and off: "\<not> is_recording s'"
    and fr: "audio_frames s' = audio_frames ?s @ map fst (take (Suc n) ?inputs)"
    and wr: "written s' = written ?s @
                [(filename ?s,
                  \<lparr> nchannels = channels ?s, sampwidth = 2, framerate = sample_rate ?s,
                    frames = concat (audio_frames ?s @ map fst (take (Suc n) ?inputs)) \<rparr>)]"
    by blast
  from before e2 have "\<not> 2 < n" by blast
  moreover from at e0 have "n \<noteq> 0" by (intro notI) simp
  moreover from at e1 have "n \<noteq> 1" by (intro notI) simp
  ultimately have n: "n = 2" by arith
  from fr wr have "audio_frames s' = [[2, 0, 0, 0], [0, 0], [0, 0]]"
    and "written s' =
        [(''out.wav'',
          \<lparr> nchannels = 1, sampwidth = 2, framerate = 44100,
            frames = [2, 0, 0, 0, 0, 0, 0, 0] \<rparr>)]"
    unfolding n f by simp_all
  with run off s(1) e3 show ?thesis by (intro conjI exI [of _ s']) simp_all
qed

text \<open>
  Claim C4.  On a recorder whose stream is open, a first \<^verbatim>\<open>stop_recording()\<close> stops the
  stream, closes it and writes one WAV file holding the buffered chunks; a second call on the
  recorder it leaves raises at the attempt to close the stream again, writes no file and
  changes nothing.  (The stream is the one modelled from the spec above.)
\<close>

theorem stop_recording_twice:
  assumes "audio_stream s = Some st" and "st \<noteq> Closed"
  shows "\<exists>s1. stop_recording s = Inr s1 \<and>
           \<not> is_recording s1 \<and> audio_stream s1 = Some Closed \<and>
           written s1 = written s @
             [(filename s,
               \<lparr> nchannels = channels s, sampwidth = 2, framerate = sample_rate s,
                 frames = concat (audio_frames s) \<rparr>)] \<and>
           stop_recording s1 = Inl (StreamError, s1)"
proof -
  let ?s1 = "s\<lparr>is_recording := False, audio_stream := Some Closed,
                written := written s @
                  [(filename s,
                    \<lparr> nchannels = channels s, sampwidth = 2, framerate = sample_rate s,
                      frames = concat (audio_frames s) \<rparr>)]\<rparr>"
  have first: "stop_recording s = Inr ?s1" using assms by (rule stop_recording_open)
  have "audio_stream ?s1 = Some Closed" by simp
  then have "stop_recording ?s1 = Inl (StreamError, ?s1\<lparr>is_recording := False\<rparr>)"
    by (rule stop_recording_closed)
  then have second: "stop_recording ?s1 = Inl (StreamError, ?s1)" by simp
  from first second show ?thesis by simp
qed

theorem stop_recording_twice_witness:
  "audio_stream (start_recording (AudioRecorder ''out.wav'' 1 44100 1024 (1 / 100) 2 0))
     = Some Running \<and> Running \<noteq> Closed \<and>
   (\<exists>s1. stop_recording (start_recording (AudioRecorder ''out.wav'' 1 44100 1024 (1 / 100) 2 0))
            = Inr s1 \<and>
         written s1 =
           [(''out.wav'', \<lparr> nchannels = 1, sampwidth = 2, framerate = 44100, frames = [] \<rparr>)] \<and>
         stop_recording s1 = Inl (StreamError, s1))"
proof -
  let ?s = "start_recording (AudioRecorder ''out.wav'' 1 44100 1024 (1 / 100) 2 0)"
  have s: "audio_stream ?s = Some Running" "Running \<noteq> Closed"
    by (simp_all add: start_recording_def AudioRecorder_def)
  from stop_recording_twice [OF s]
  obtain s1 where "stop_recording ?s = Inr s1"
    and "written s1 = written ?s @
             [(filename ?s,
               \<lparr> nchannels = channels ?s, sampwidth = 2, framerate = sample_rate ?s,
                 frames = concat (audio_frames ?s) \<rparr>)]"
    and "stop_recording s1 = Inl (StreamError, s1)"
    by blast
  moreover have "written ?s = []" and "audio_frames ?s = []" and "filename ?s = ''out.wav''"
    and "channels ?s = 1" and "sample_rate ?s = 44100"
    by (simp_all add: start_recording_def AudioRecorder_def)
  ultimately show ?thesis using s by (intro conjI exI [of _ s1]) simp_all
qed

section \<open>Properties of \<^verbatim>\<open>WebcamImageSender\<close>\<close>

lemma unat_absdiff_pixel:
  "unat (absdiff_pixel a b) = nat \<bar>uint a - uint b\<bar>"
proof (cases "a \<le> b")
  case True
  then have "uint (b - a) = uint b - uint a" by (metis uint_minus_simple_alt)
  moreover from True have "uint a \<le> uint b" by (simp add: word_le_def)
  ultimately show ?thesis using True by (simp add: absdiff_pixel_def unat_eq_nat_uint)
next
  case False
  then have le: "b \<le> a" by simp
  then have "uint (a - b) = uint a - uint b" by (metis uint_minus_simple_alt)
  moreover from le have "uint b \<le> uint a" by (simp add: word_le_def)
  ultimately show ?thesis using False by (simp add: absdiff_pixel_def unat_eq_nat_uint)
qed

lemma absdiff_pixel_same: "absdiff_pixel a a = 0"
  by (simp add: absdiff_pixel_def)

lemma sum_absdiff_same: "sum_list (map unat (map2 absdiff_pixel img img)) = 0"
  by (induction img) (simp_all add: absdiff_pixel_same)

lemma sum_absdiff_max:
  assumes "list_all2 (\<lambda>a b. \<bar>uint a - uint b\<bar> = 255) img last_img"
  shows "sum_list (map unat (map2 absdiff_pixel img last_img)) = 255 * length img"
  using assms by (induction rule: list_all2_induct) (simp_all add: unat_absdiff_pixel)

text \<open>
  Claim C6.  \<^verbatim>\<open>image_difference\<close> of an image identical to the stored last stable frame is 0;
  of an image of which every pixel differs from the stored frame's by the maximum intensity
  255, it is 255 times the number of pixels.
\<close>

theorem image_difference_extremes:
  "(last_image s = Some img \<longrightarrow> image_difference s img = Inr 0) \<and>
   (last_image s = Some last_img \<and>
    list_all2 (\<lambda>a b. \<bar>uint a - uint b\<bar> = 255) img last_img \<longrightarrow>
      image_difference s img = Inr (255 * length img))"
proof (intro conjI impI)
  assume "last_image s = Some img"
  then show "image_difference s img = Inr 0"
    using sum_absdiff_same [of img] by (simp add: image_difference_def absdiff_def)
next
  assume a: "last_image s = Some last_img \<and>
    list_all2 (\<lambda>a b. \<bar>uint a - uint b\<bar> = 255) img last_img"
  then have "length img = length last_img" by (blast dest: list_all2_lengthD)
  with a show "image_difference s img = Inr (255 * length img)"
    using sum_absdiff_max [of img last_img] by (simp add: image_difference_def absdiff_def)
qed

theorem image_difference_extremes_witness:
  "image_difference (WebcamImageSender\<lparr>last_image := Some [0, 255, 7]\<rparr>) [0, 255, 7] = Inr 0 \<and>
   image_difference (WebcamImageSender\<lparr>last_image := Some [0, 255, 0]\<rparr>) [255, 0, 255]
     = Inr (255 * 3)"
proof -
  have "list_all2 (\<lambda>a b. \<bar>uint a - uint b\<bar> = 255)
          [255, 0, 255 :: byte] [0, 255, 0 :: byte]"
    by simp
  then show ?thesis
    using image_difference_extremes
            [of "WebcamImageSender\<lparr>last_image := Some [0, 255, 7]\<rparr>" "[0, 255, 7]"]
          image_difference_extremes
            [of "WebcamImageSender\<lparr>last_image := Some [0, 255, 0]\<rparr>" "[255, 0, 255]"
                "[0, 255, 0]"]
    by simp
qed

lemma image_difference_same_shape:
  assumes "last_image s = Some last_img" and "length img = length last_img"
  shows "image_difference s img = Inr (sum_list (map unat (map2 absdiff_pixel img last_img)))"
  using assms by (simp add: image_difference_def absdiff_def)

lemma image_difference_gt_0_differs:
  assumes "last_image s = Some last_img" and "image_difference s img = Inr d" and "0 < d"
  shows "img \<noteq> last_img"
proof
  assume "img = last_img"
  with assms(1) have "image_difference s img = Inr 0"
    using sum_absdiff_same [of img] by (simp add: image_difference_def absdiff_def)
  with assms(2,3) show False by simp
qed

lemma stable_frame_step:
  assumes "capture_step cv s (Some frame, now) = Inr (s', sent)"
  shows "if last_image s = None \<or>
             (\<exists>d. image_difference s (cvtColor_gray cv frame) = Inr d \<and> 2 < d)
          then s' = s\<lparr>last_image := Some (cvtColor_gray cv frame),
                       last_change_time := Some now\<rparr> \<and>
               last_image s' \<noteq> last_image s
          else s' = s"
proof (cases "last_image s")
  case None
  with assms show ?thesis
    by (auto simp: capture_step_def stable_frame_changed_def Let_def)
next
  case (Some last_img)
  let ?gray = "cvtColor_gray cv frame"
  from assms Some obtain d where d: "image_difference s ?gray = Inr d"
    by (auto simp: capture_step_def stable_frame_changed_def Let_def split: sum.splits)
  show ?thesis
  proof (cases "2 < d")
    case True
    then have "?gray \<noteq> last_img"
      using image_difference_gt_0_differs [OF Some d] by simp
    with assms Some d True show ?thesis
      by (auto simp: capture_step_def stable_frame_changed_def Let_def)
  next
    case False
    with assms Some d show ?thesis
      by (auto simp: capture_step_def stable_frame_changed_def Let_def)
  qed
qed

text \<open>
  Claim C7.  In an iteration of the worker that completes, the stored last stable frame is
  replaced if and only if no stable frame exists yet or its pixel-wise absolute-difference sum
  against the current grayscale frame exceeds the constant 2.  When it is replaced, the
  current grayscale frame is stored with the time of the clock; when it is not, the whole state,
  the last-change timestamp included, is unchanged.
\<close>

theorem stable_frame_replacement:
  assumes "capture_step cv s (Some frame, now) = Inr (s', sent)"
  shows "(last_image s' \<noteq> last_image s \<longleftrightarrow>
            last_image s = None \<or>
            (\<exists>d. image_difference s (cvtColor_gray cv frame) = Inr d \<and> 2 < d)) \<and>
         (last_image s' \<noteq> last_image s \<longrightarrow>
            last_image s' = Some (cvtColor_gray cv frame) \<and> last_change_time s' = Some now) \<and>
         (last_image s' = last_image s \<longrightarrow> s' = s)"
  using stable_frame_step [OF assms] by (auto split: if_splits)

theorem stable_frame_replacement_witness:
  "(\<exists>s' sent.
      capture_step \<lparr> cvtColor_gray = \<lambda>f. f, imencode_jpg = \<lambda>f. f, b64encode_utf8 = \<lambda>b. ''/9j/'' \<rparr>
        (WebcamImageSender\<lparr>last_image := Some [10, 10]\<rparr>) (Some [10, 13], 5) = Inr (s', sent) \<and>
      last_image s' = Some [10, 13] \<and> last_change_time s' = Some 5) \<and>
   (\<exists>s' sent.
      capture_step \<lparr> cvtColor_gray = \<lambda>f. f, imencode_jpg = \<lambda>f. f, b64encode_utf8 = \<lambda>b. ''/9j/'' \<rparr>
        (WebcamImageSender\<lparr>last_image := Some [10, 10]\<rparr>) (Some [10, 12], 5) = Inr (s', sent) \<and>
      s' = WebcamImageSender\<lparr>last_image := Some [10, 10]\<rparr>)"
proof -
  let ?cv = "\<lparr> cvtColor_gray = \<lambda>f. f, imencode_jpg = \<lambda>f. f,
               b64encode_utf8 = \<lambda>b :: byte list. ''/9j/'' \<rparr> :: (byte list) codecs"
  let ?s = "WebcamImageSender\<lparr>last_image := Some [10, 10]\<rparr>"
  have d3: "image_difference ?s [10, 13] = Inr 3"
    by (simp add: image_difference_def absdiff_def absdiff_pixel_def)
  have d2: "image_difference ?s [10, 12] = Inr 2"
    by (simp add: image_difference_def absdiff_def absdiff_pixel_def)
  obtain s1 sent1 where r1: "capture_step ?cv ?s (Some [10, 13], 5) = Inr (s1, sent1)"
    using d3 by (simp add: capture_step_def stable_frame_changed_def)
  obtain s2 sent2 where r2: "capture_step ?cv ?s (Some [10, 12], 5) = Inr (s2, sent2)"
    using d2 by (simp add: capture_step_def stable_frame_changed_def)
  have "last_image s1 = Some [10, 13] \<and> last_change_time s1 = Some 5"
    using stable_frame_replacement [OF r1] d3 by auto
  moreover have "s2 = ?s"
    using stable_frame_replacement [OF r2] d2 by auto
  ultimately show ?thesis using r1 r2 by blast
qed

lemma capture_step_same_shape:
  assumes "length (cvtColor_gray cv f) = n" and "\<forall>l. last_image s = Some l \<longrightarrow> length l = n"
  shows "\<exists>s1. capture_step cv s (Some f, t)
                 = Inr (s1, (''image'', b64encode_utf8 cv (imencode_jpg cv f))) \<and>
              is_running s1 = is_running s \<and>
              (\<forall>l. last_image s1 = Some l \<longrightarrow> length l = n)"
proof (cases "last_image s")
  case None
  with assms show ?thesis
    by (simp add: capture_step_def stable_frame_changed_def)
next
  case (Some last_img)
  with assms have "length (cvtColor_gray cv f) = length last_img" by simp
  from image_difference_same_shape [OF Some this] Some assms show ?thesis
    by (auto simp: capture_step_def stable_frame_changed_def Let_def)
qed

lemma capture_loop_same_shape:
  assumes "is_running s"
    and "\<forall>(f, t) \<in> set reads. length (cvtColor_gray cv f) = n"
    and "\<forall>l. last_image s = Some l \<longrightarrow> length l = n"
  shows "\<exists>s'. capture_loop cv s (map (\<lambda>(f, t). (Some f, t)) reads) sent
                 = Inr (s', sent @ map (\<lambda>(f, t). (''image'', b64encode_utf8 cv (imencode_jpg cv f)))
                                     reads) \<and>
              is_running s'"
  using assms
proof (induction reads arbitrary: s sent)
  case Nil
  then show ?case by simp
next
  case (Cons r reads)
  obtain f t where r: "r = (f, t)" by (cases r)
  from Cons.prems(2) r have "length (cvtColor_gray cv f) = n" by simp
  from capture_step_same_shape [OF this Cons.prems(3)]
  obtain s1 where step: "capture_step cv s (Some f, t)
                 = Inr (s1, (''image'', b64encode_utf8 cv (imencode_jpg cv f)))"
    and run: "is_running s1" and shape: "\<forall>l. last_image s1 = Some l \<longrightarrow> length l = n"
    using Cons.prems(1) by blast
  from Cons.prems(2) have "\<forall>(f, t) \<in> set reads. length (cvtColor_gray cv f) = n" by simp
  from Cons.IH [OF run this shape, of "sent @ [(''image'', b64encode_utf8 cv (imencode_jpg cv f))]"]
  show ?case using Cons.prems(1) step by (simp add: r)
qed

text \<open>
  Claim C3.  While the sender is running, for every sequence of frames read from a camera
  (all of one shape, \<open>n\<close> pixels, as is the stored frame if there is one) the worker emits
  exactly one \<^verbatim>\<open>"image"\<close> event per frame, in order, each carrying the base64 text of the JPEG
  encoding of its frame.  The list of events does not depend on the stored stable frame, nor
  on which frames replaced it.
\<close>

theorem every_frame_is_emitted:
  assumes "is_running s"
    and "\<forall>(f, t) \<in> set reads. length (cvtColor_gray cv f) = n"
    and "\<forall>l. last_image s = Some l \<longrightarrow> length l = n"
  shows "\<exists>s' sent. capture_image cv s (map (\<lambda>(f, t). (Some f, t)) reads) = Inr (s', sent) \<and>
           sent = map (\<lambda>(f, t). (''image'', b64encode_utf8 cv (imencode_jpg cv f))) reads \<and>
           length sent = length reads"
  using capture_loop_same_shape [OF assms, of "[]"] by (auto simp: capture_image_def)

theorem every_frame_is_emitted_witness:
  "is_running (start_capture WebcamImageSender) \<and>
   (\<exists>s'. capture_image
            \<lparr> cvtColor_gray = \<lambda>f. f, imencode_jpg = \<lambda>f. f, b64encode_utf8 = map (\<lambda>b. CHR ''A'') \<rparr>
            (start_capture WebcamImageSender)
            [(Some [10, 10], 1), (Some [10, 10], 2), (Some [90, 10], 3)]
          = Inr (s', [(''image'', ''AA''), (''image'', ''AA''), (''image'', ''AA'')]))"
proof -
  let ?cv = "\<lparr> cvtColor_gray = \<lambda>f. f, imencode_jpg = \<lambda>f. f,
               b64encode_utf8 = map (\<lambda>b :: byte. CHR ''A'') \<rparr> :: (byte list) codecs"
  let ?s = "start_capture WebcamImageSender"
  let ?reads = "[([10, 10], 1), ([10, 10], 2), ([90, 10], 3 :: real)] :: (byte list \<times> real) list"
  have run: "is_running ?s" by (simp add: start_capture_def)
  have shape: "\<forall>(f, t) \<in> set ?reads. length (cvtColor_gray ?cv f) = 2" by simp
  have first: "\<forall>l. last_image ?s = Some l \<longrightarrow> length l = 2"
    by (simp add: start_capture_def WebcamImageSender_def)
  from every_frame_is_emitted [OF run shape first] run show ?thesis by simp
qed

section \<open>Properties of \<^verbatim>\<open>MusicPlayer\<close>\<close>

lemma run_events_append: "run_events (es @ es') s = run_events es' (run_events es s)"
  by (induction es arbitrary: s) simp_all

lemma stopped_run_event: "stopped s \<Longrightarrow> stopped (run_event e s)"
  by (cases e)
    (simp_all add: run_begin_def run_test_def run_body_def pause_def resume_def stop_def)

lemma stopped_run_events: "stopped s \<Longrightarrow> stopped (run_events es s)"
  by (induction es arbitrary: s) (simp_all add: stopped_run_event)

lemma started_run_event: "worker s \<noteq> NotStarted \<Longrightarrow> worker (run_event e s) \<noteq> NotStarted"
  by (cases e)
    (simp_all add: run_begin_def run_test_def run_body_def pause_def resume_def stop_def)

lemma started_run_events: "worker s \<noteq> NotStarted \<Longrightarrow> worker (run_events es s) \<noteq> NotStarted"
  by (induction es arbitrary: s) (simp_all add: started_run_event)

lemma run_event_after_stop:
  assumes "stopped s" and "worker s \<noteq> NotStarted"
  shows "\<exists>tail. mixer_log (run_event e s) = mixer_log s @ tail \<and>
           MusicPlay \<notin> set tail \<and>
           length (filter pause_command tail) + (if worker (run_event e s) = InBody then 1 else 0)
             \<le> (if worker s = InBody then 1 else 0)"
  using assms
  by (cases e)
    (simp_all add: run_begin_def run_test_def run_body_def pause_def resume_def stop_def
      pause_command_def)

lemma run_events_after_stop:
  assumes "stopped s" and "worker s \<noteq> NotStarted"
  shows "\<exists>tail. mixer_log (run_events es s) = mixer_log s @ tail \<and>
           MusicPlay \<notin> set tail \<and>
           length (filter pause_command tail) + (if worker (run_events es s) = InBody then 1 else 0)
             \<le> (if worker s = InBody then 1 else 0)"
  using assms
proof (induction es arbitrary: s)
  case Nil
  then show ?case by simp
next
  case (Cons e es)
  let ?s1 = "run_event e s"
  from run_event_after_stop [OF Cons.prems, of e]
  obtain t1 where t1: "mixer_log ?s1 = mixer_log s @ t1" "MusicPlay \<notin> set t1"
    "length (filter pause_command t1) + (if worker ?s1 = InBody then 1 else 0)
       \<le> (if worker s = InBody then 1 else 0)"
    by blast
  have "stopped ?s1" and "worker ?s1 \<noteq> NotStarted"
    using Cons.prems by (simp_all add: stopped_run_event started_run_event)
  from Cons.IH [OF this]
  obtain t2 where t2: "mixer_log (run_events es ?s1) = mixer_log ?s1 @ t2" "MusicPlay \<notin> set t2"
    "length (filter pause_command t2) + (if worker (run_events es ?s1) = InBody then 1 else 0)
       \<le> (if worker ?s1 = InBody then 1 else 0)"
    by blast
  have "mixer_log (run_events (e # es) s) = mixer_log s @ (t1 @ t2)"
    using t1(1) t2(1) by simp
  moreover have "MusicPlay \<notin> set (t1 @ t2)" using t1(2) t2(2) by simp
  moreover have "length (filter pause_command (t1 @ t2))
      + (if worker (run_events (e # es) s) = InBody then 1 else 0)
      \<le> (if worker s = InBody then 1 else 0)"
    using t1(3) t2(3) by simp
  ultimately show ?case by blast
qed

lemma exits_at_next_test:
  assumes "stopped s" and "worker s \<noteq> NotStarted"
  shows "worker (run_test busy (run_body s)) = Exited"
  using assms by (cases "worker s") (simp_all add: run_test_def run_body_def)

lemma calls_only_set_paused:
  assumes "set es \<subseteq> {CallPause, CallResume}"
  shows "mixer_log (run_events es s) = mixer_log s \<and> worker (run_events es s) = worker s \<and>
         stopped (run_events es s) = stopped s \<and> file_path (run_events es s) = file_path s"
  using assms
proof (induction es arbitrary: s)
  case Nil
  then show ?case by simp
next
  case (Cons e es)
  then have e: "e = CallPause \<or> e = CallResume" and es: "set es \<subseteq> {CallPause, CallResume}"
    by simp_all
  from e have "mixer_log (run_event e s) = mixer_log s \<and> worker (run_event e s) = worker s \<and>
         stopped (run_event e s) = stopped s \<and> file_path (run_event e s) = file_path s"
    by (auto simp: pause_def resume_def)
  with Cons.IH [OF es, of "run_event e s"] show ?case by simp
qed

text \<open>
  Claim C5.  \<^verbatim>\<open>stop()\<close> sets \<^verbatim>\<open>stopped\<close> and sends the stop command to the mixer at once,
  wherever the worker stands.  After it, whatever happens next (calls of \<^verbatim>\<open>pause()\<close>,
  \<^verbatim>\<open>resume()\<close> or \<^verbatim>\<open>stop()\<close> and steps of the worker, in any order), \<^verbatim>\<open>stopped\<close> stays
  set.  Calls of \<^verbatim>\<open>pause()\<close> and \<^verbatim>\<open>resume()\<close> alone send nothing to the mixer and do not
  move the worker.  Once the worker has begun, it leaves the loop at the next evaluation of
  the loop's condition, after at most the one iteration it was in; the mixer is never told to
  play again, and it receives at most one more pause or unpause command, only from an
  iteration that had passed the condition before \<^verbatim>\<open>stop()\<close>.
\<close>

theorem stopped_is_terminal:
  "stopped (stop s) \<and> mixer_log (stop s) = mixer_log s @ [MusicStop] \<and>
   worker (stop s) = worker s \<and>
   stopped (run_events es (stop s)) \<and>
   (set es \<subseteq> {CallPause, CallResume} \<longrightarrow>
      mixer_log (run_events es (stop s)) = mixer_log (stop s) \<and>
      worker (run_events es (stop s)) = worker s) \<and>
   (worker s \<noteq> NotStarted \<longrightarrow>
      worker (run_events (es @ [RunBody, RunTest busy]) (stop s)) = Exited \<and>
      (\<exists>tail. mixer_log (run_events es (stop s)) = mixer_log (stop s) @ tail \<and>
              MusicPlay \<notin> set tail \<and>
              length (filter pause_command tail) \<le> (if worker s = InBody then 1 else 0)))"
proof -
  have st: "stopped (stop s)" and w: "worker (stop s) = worker s"
    and lg: "mixer_log (stop s) = mixer_log s @ [MusicStop]"
    by (simp_all add: stop_def)
  have flag: "stopped (run_events es (stop s))" using st by (rule stopped_run_events)
  have calls: "mixer_log (run_events es (stop s)) = mixer_log (stop s) \<and>
      worker (run_events es (stop s)) = worker s"
    if "set es \<subseteq> {CallPause, CallResume}"
    using calls_only_set_paused [OF that, of "stop s"] w by simp
  have loop: "worker (run_events (es @ [RunBody, RunTest busy]) (stop s)) = Exited \<and>
      (\<exists>tail. mixer_log (run_events es (stop s)) = mixer_log (stop s) @ tail \<and>
              MusicPlay \<notin> set tail \<and>
              length (filter pause_command tail) \<le> (if worker s = InBody then 1 else 0))"
    if started: "worker s \<noteq> NotStarted"
  proof -
    from started w have w': "worker (stop s) \<noteq> NotStarted" by simp
    then have "worker (run_events es (stop s)) \<noteq> NotStarted" by (rule started_run_events)
    with flag have "worker (run_test busy (run_body (run_events es (stop s)))) = Exited"
      by (rule exits_at_next_test)
    then have "worker (run_events (es @ [RunBody, RunTest busy]) (stop s)) = Exited"
      by (simp add: run_events_append)
    moreover from run_events_after_stop [OF st w', of es] w
    have "\<exists>tail. mixer_log (run_events es (stop s)) = mixer_log (stop s) @ tail \<and>
              MusicPlay \<notin> set tail \<and>
              length (filter pause_command tail) \<le> (if worker s = InBody then 1 else 0)"
      by (auto split: if_splits)
    ultimately show ?thesis by simp
  qed
  show ?thesis
  proof (intro conjI impI)
    show "stopped (stop s)" by (rule st)
    show "mixer_log (stop s) = mixer_log s @ [MusicStop]" by (rule lg)
    show "worker (stop s) = worker s" by (rule w)
    show "stopped (run_events es (stop s))" by (rule flag)
  next
    assume "set es \<subseteq> {CallPause, CallResume}"
    from calls [OF this]
    show "mixer_log (run_events es (stop s)) = mixer_log (stop s)"
      and "worker (run_events es (stop s)) = worker s"
      by simp_all
  next
    assume "worker s \<noteq> NotStarted"
    from loop [OF this]
    show "worker (run_events (es @ [RunBody, RunTest busy]) (stop s)) = Exited"
      and "\<exists>tail. mixer_log (run_events es (stop s)) = mixer_log (stop s) @ tail \<and>
              MusicPlay \<notin> set tail \<and>
              length (filter pause_command tail) \<le> (if worker s = InBody then 1 else 0)"
      by simp_all
  qed
qed

theorem stopped_is_terminal_witness:
  "worker (run_events [RunBegin, RunTest True] (MusicPlayer ''song.mp3'' [])) = InBody \<and>
   stopped (run_events [CallResume, RunBody, CallPause, RunTest True, CallResume, RunBody]
              (stop (run_events [RunBegin, RunTest True] (MusicPlayer ''song.mp3'' [])))) \<and>
   worker (run_events
             ([CallResume, RunBody, CallPause, RunTest True, CallResume, RunBody]
                @ [RunBody, RunTest True])
             (stop (run_events [RunBegin, RunTest True] (MusicPlayer ''song.mp3'' [])))) = Exited \<and>
   mixer_log (run_events [CallResume, RunBody, CallPause, RunTest True, CallResume, RunBody]
                (stop (run_events [RunBegin, RunTest True] (MusicPlayer ''song.mp3'' []))))
     = [MixerInit, MusicLoad ''song.mp3'', MusicPlay, MusicStop, MusicUnpause] \<and>
   set [CallPause, CallResume] \<subseteq> {CallPause, CallResume} \<and>
   mixer_log (run_events [CallPause, CallResume]
                (stop (run_events [RunBegin, RunTest True] (MusicPlayer ''song.mp3'' []))))
     = [MixerInit, MusicLoad ''song.mp3'', MusicPlay, MusicStop]"
proof -
  let ?s = "run_events [RunBegin, RunTest True] (MusicPlayer ''song.mp3'' [])"
  let ?es = "[CallResume, RunBody, CallPause, RunTest True, CallResume, RunBody]"
  have w: "worker ?s = InBody"
    by (simp add: MusicPlayer_def run_begin_def run_test_def)
  then have started: "worker ?s \<noteq> NotStarted" by simp
  have calls: "set [CallPause, CallResume] \<subseteq> {CallPause, CallResume}" by simp
  have lg: "mixer_log (stop ?s) = [MixerInit, MusicLoad ''song.mp3'', MusicPlay, MusicStop]"
    by (simp add: MusicPlayer_def run_begin_def run_test_def stop_def)
  have after: "mixer_log (run_events ?es (stop ?s))
     = [MixerInit, MusicLoad ''song.mp3'', MusicPlay, MusicStop, MusicUnpause]"
    by (simp add: MusicPlayer_def run_begin_def run_test_def run_body_def stop_def pause_def
        resume_def)
  from stopped_is_terminal [of ?s ?es True] started
  have "stopped (run_events ?es (stop ?s))"
    and "worker (run_events (?es @ [RunBody, RunTest True]) (stop ?s)) = Exited"
    by blast+
  moreover from stopped_is_terminal [of ?s "[CallPause, CallResume]" True] calls lg
  have "mixer_log (run_events [CallPause, CallResume] (stop ?s))
      = [MixerInit, MusicLoad ''song.mp3'', MusicPlay, MusicStop]"
    by metis
  ultimately show ?thesis using w calls after by blast
qed

text \<open>
  Claim C8.  \<^verbatim>\<open>pause()\<close> and \<^verbatim>\<open>resume()\<close> set the flag \<^verbatim>\<open>paused\<close> and nothing else:
  \<^verbatim>\<open>file_path\<close>, \<^verbatim>\<open>stopped\<close>, the worker and the commands sent to the mixer are as before.
  The mixer is paused or unpaused by the worker: by the body of the loop when the worker is
  in it, or by its next iteration when the mixer is busy and the player is not stopped; when
  that iteration's condition fails nothing is sent.
\<close>

theorem pause_resume_only_set_flag:
  "paused (pause s) \<and> \<not> paused (resume s) \<and>
   file_path (pause s) = file_path s \<and> stopped (pause s) = stopped s \<and>
   worker (pause s) = worker s \<and> mixer_log (pause s) = mixer_log s \<and>
   file_path (resume s) = file_path s \<and> stopped (resume s) = stopped s \<and>
   worker (resume s) = worker s \<and> mixer_log (resume s) = mixer_log s \<and>
   (worker s = AtTest \<and> busy \<and> \<not> stopped s \<longrightarrow>
      mixer_log (run_body (run_test busy (pause s))) = mixer_log s @ [MusicPause] \<and>
      mixer_log (run_body (run_test busy (resume s))) = mixer_log s @ [MusicUnpause]) \<and>
   (worker s = AtTest \<and> (stopped s \<or> \<not> busy) \<longrightarrow>
      mixer_log (run_body (run_test busy (pause s))) = mixer_log s \<and>
      mixer_log (run_body (run_test busy (resume s))) = mixer_log s) \<and>
   (worker s = InBody \<longrightarrow>
      mixer_log (run_body (pause s)) = mixer_log s @ [MusicPause] \<and>
      mixer_log (run_body (resume s)) = mixer_log s @ [MusicUnpause])"
proof (intro conjI impI)
  show "paused (pause s)" by (simp add: pause_def)
  show "\<not> paused (resume s)" by (simp add: resume_def)
  show "file_path (pause s) = file_path s" by (simp add: pause_def)
  show "stopped (pause s) = stopped s" by (simp add: pause_def)
  show "worker (pause s) = worker s" by (simp add: pause_def)
  show "mixer_log (pause s) = mixer_log s" by (simp add: pause_def)
  show "file_path (resume s) = file_path s" by (simp add: resume_def)
  show "stopped (resume s) = stopped s" by (simp add: resume_def)
  show "worker (resume s) = worker s" by (simp add: resume_def)
  show "mixer_log (resume s) = mixer_log s" by (simp add: resume_def)
next
  assume a: "worker s = AtTest \<and> busy \<and> \<not> stopped s"
  then show "mixer_log (run_body (run_test busy (pause s))) = mixer_log s @ [MusicPause]"
    by (simp add: pause_def run_test_def run_body_def)
  from a show "mixer_log (run_body (run_test busy (resume s))) = mixer_log s @ [MusicUnpause]"
    by (simp add: resume_def run_test_def run_body_def)
next
  assume a: "worker s = AtTest \<and> (stopped s \<or> \<not> busy)"
  then show "mixer_log (run_body (run_test busy (pause s))) = mixer_log s"
    by (auto simp: pause_def run_test_def run_body_def)
  from a show "mixer_log (run_body (run_test busy (resume s))) = mixer_log s"
    by (auto simp: resume_def run_test_def run_body_def)
next
  assume a: "worker s = InBody"
  then show "mixer_log (run_body (pause s)) = mixer_log s @ [MusicPause]"
    by (simp add: pause_def run_body_def)
  from a show "mixer_log (run_body (resume s)) = mixer_log s @ [MusicUnpause]"
    by (simp add: resume_def run_body_def)
qed

theorem pause_resume_only_set_flag_witness:
  "worker (run_begin (MusicPlayer ''song.mp3'' [])) = AtTest \<and>
   \<not> stopped (run_begin (MusicPlayer ''song.mp3'' [])) \<and>
   mixer_log (pause (run_begin (MusicPlayer ''song.mp3'' [])))
     = [MixerInit, MusicLoad ''song.mp3'', MusicPlay] \<and>
   mixer_log (run_body (run_test True (pause (run_begin (MusicPlayer ''song.mp3'' [])))))
     = [MixerInit, MusicLoad ''song.mp3'', MusicPlay, MusicPause] \<and>
   worker (run_test True (run_begin (MusicPlayer ''song.mp3'' []))) = InBody \<and>
   mixer_log (run_body (resume (pause (run_test True (run_begin (MusicPlayer ''song.mp3'' []))))))
     = [MixerInit, MusicLoad ''song.mp3'', MusicPlay, MusicUnpause]"
proof -
  let ?s = "run_begin (MusicPlayer ''song.mp3'' [])"
  let ?b = "pause (run_test True ?s)"
  have s: "worker ?s = AtTest" "\<not> stopped ?s"
    and lg: "mixer_log ?s = [MixerInit, MusicLoad ''song.mp3'', MusicPlay]"
    by (simp_all add: MusicPlayer_def run_begin_def)
  have t: "worker (run_test True ?s) = InBody"
    and lt: "mixer_log (run_test True ?s) = [MixerInit, MusicLoad ''song.mp3'', MusicPlay]"
    using s lg by (simp_all add: run_test_def)
  from pause_resume_only_set_flag [of ?s True] s lg
  have "mixer_log (pause ?s) = [MixerInit, MusicLoad ''song.mp3'', MusicPlay]"
    and "mixer_log (run_body (run_test True (pause ?s)))
      = [MixerInit, MusicLoad ''song.mp3'', MusicPlay, MusicPause]"
    by simp_all
  moreover from pause_resume_only_set_flag [of "run_test True ?s" True] t lt
  have b: "worker ?b = InBody"
    and "mixer_log ?b = [MixerInit, MusicLoad ''song.mp3'', MusicPlay]"
    by simp_all
  with pause_resume_only_set_flag [of ?b True]
  have "mixer_log (run_body (resume ?b))
      = [MixerInit, MusicLoad ''song.mp3'', MusicPlay, MusicUnpause]"
    by simp
  ultimately show ?thesis using s t by simp
qed

end
